theory Spec2Isabelle
  imports Complex_Main
begin

section \<open>Topology model\<close>

text \<open>
  The Python module \<^verbatim>\<open>rebalance.py\<close> keeps the CRUSH tree as \<^verbatim>\<open>CrushNode\<close> objects that
  refer to each other and are mutated in place (the scheduler assigns \<^verbatim>\<open>node.weight\<close>).
  Objects are modelled by references into an explicit store: a \<open>ref\<close> is the identity of
  one \<^verbatim>\<open>CrushNode\<close> object (what Python's \<^verbatim>\<open>is\<close> compares), and the store maps every
  reference to the object's current fields.  \<^verbatim>\<open>weight\<close> is \<open>None\<close> for a node whose JSON
  record has no \<^verbatim>\<open>crush_weight\<close>.  Python floats are modelled as exact real numbers:
  rounding is not part of the model.
\<close>

type_synonym ref = nat

record CrushNode =
  node_id :: int
  weight :: "real option"
  name :: string
  type :: string
  childs :: "ref list"

type_synonym store = "ref \<Rightarrow> CrushNode"

record Crush =
  nodes_map :: "int \<rightharpoonup> ref"
  roots :: "ref list"

type_synonym segment = "string \<times> string"
type_synonym path = "segment list"

text \<open>
  Exceptions are values.  \<^verbatim>\<open>find_node\<close> raises \<^verbatim>\<open>IndexError\<close> with two different
  messages ("Can't found any node with path ..." and "Found n nodes for path ... (should be
  only 1)"); the two constructors below keep them apart.  \<^verbatim>\<open>ValueError\<close> comes from
  \<^verbatim>\<open>default_zone_order.index\<close>, \<^verbatim>\<open>TypeError\<close> from arithmetic on a weight that is
  \<^verbatim>\<open>None\<close>, \<^verbatim>\<open>ZeroDivisionError\<close> from the floor division of the progress report.
\<close>

datatype error =
    IndexError_not_found path
  | IndexError_ambiguous nat path
  | ValueError string
  | TypeError
  | ZeroDivisionError

text \<open>The test \<^verbatim>\<open>node.type == tp and node.name == name\<close> of \<^verbatim>\<open>find_nodes\<close>.\<close>

definition node_matches :: "store \<Rightarrow> segment \<Rightarrow> ref \<Rightarrow> bool" where
  "node_matches h seg node = (type (h node) = fst seg \<and> name (h node) = snd seg)"

text \<open>
  The body of the outer loop of \<^verbatim>\<open>find_nodes\<close> (one path segment that is not the last):
  the inner loop extends \<^verbatim>\<open>new_current_nodes\<close> by the children of every matching node.
\<close>

definition expand_matching :: "store \<Rightarrow> segment \<Rightarrow> ref list \<Rightarrow> ref list" where
  "expand_matching h seg current_nodes =
     fold (\<lambda>node new_current_nodes.
             if node_matches h seg node then new_current_nodes @ childs (h node)
             else new_current_nodes)
          current_nodes []"

definition find_nodes :: "store \<Rightarrow> Crush \<Rightarrow> path \<Rightarrow> ref list" where
  "find_nodes h crush p =
     (if p = [] then roots crush
      else
        let current_nodes = fold (expand_matching h) (butlast p) (roots crush)
        in fold (\<lambda>node res. if node_matches h (last p) node then res @ [node] else res)
                current_nodes [])"

definition find_node :: "store \<Rightarrow> Crush \<Rightarrow> path \<Rightarrow> error + ref" where
  "find_node h crush p =
     (let nodes = find_nodes h crush p in
      if nodes = [] then Inl (IndexError_not_found p)
      else if length nodes > 1 then Inl (IndexError_ambiguous (length nodes) p)
      else Inr (nodes ! 0))"

text \<open>
  The candidate set of the specification (section 4.1), written from its words: for every
  segment but the last, keep the candidates that match and replace them by their children.
\<close>

fun candidates_spec :: "store \<Rightarrow> ref list \<Rightarrow> path \<Rightarrow> ref list" where
  "candidates_spec h cands [] = cands"
| "candidates_spec h cands (seg # rest) =
     candidates_spec h (concat (map (\<lambda>n. childs (h n)) (filter (node_matches h seg) cands))) rest"

section \<open>External world: events and cluster health\<close>

text \<open>
  Everything the module does to the outside is recorded, in order, as an event: the
  command lines given to \<^verbatim>\<open>run\<close>, \<^verbatim>\<open>time.sleep(5)\<close>, the calls of the helpers of the
  estimation step and every \<^verbatim>\<open>print\<close>.  The answers of the cluster to the successive
  \<^verbatim>\<open>ceph pg stat\<close> queries are an input: a list of answers, each the
  \<^verbatim>\<open>num_pg_by_state\<close> list of the JSON document.  A query with no answer left means that
  the modelled run is still going on when the supplied answers end; the functions below
  then return \<open>None\<close>.
\<close>

record pg_state_count =
  pg_name :: string
  num :: int

datatype message =
    Target_line CrushNode real
  | Nothing_to_change
  | Total_sum real
  | Total_bytes
  | Total_PG
  | Done_percent int
  | Command_line string real path
  | Waiting
  | Dot
  | Done_waiting

datatype event =
    Run_osd_tree
  | Run_pg_stat
  | Run_crush_set string real path
  | Run_getmap
  | Run_export_crush
  | Run_update_item int real string path
  | Run_import_crush
  | Tmpnam
  | Copy_map
  | Calculate_remap
  | Sleep
  | Print message

type_synonym target = "ref \<times> path \<times> real"

text \<open>
  The state threaded through \<^verbatim>\<open>do_rebalance\<close>: the node objects, the cluster's pending
  answers, the events so far, and the local variables of \<^verbatim>\<open>do_rebalance\<close> that change.
\<close>

record state =
  nodes :: store
  pg_stats :: "pg_state_count list list"
  trace :: "event list"
  rebalance_nodes :: "target list"
  total_weight_change :: real
  already_changed :: real
  any_updates :: bool

text \<open>The values \<^verbatim>\<open>do_rebalance\<close> reads from the configuration, and the global \<^verbatim>\<open>BE_QUIET\<close>.\<close>

record params =
  max_nodes_per_round :: int
  max_weight_change :: real
  min_weight_diff :: real
  selection_algo :: string
  BE_QUIET :: bool

definition emit :: "event \<Rightarrow> state \<Rightarrow> state" where
  "emit e s = s\<lparr>trace := trace s @ [e]\<rparr>"

section \<open>Completion monitor\<close>

text \<open>The loop of \<^verbatim>\<open>is_rebalance_complete\<close> over the \<^verbatim>\<open>num_pg_by_state\<close> entries.\<close>

fun all_pgs_clean :: "pg_state_count list \<Rightarrow> bool" where
  "all_pgs_clean [] = True"
| "all_pgs_clean (dct # rest) =
     (if pg_name dct \<noteq> ''active+clean'' \<and> num dct \<noteq> 0 then False else all_pgs_clean rest)"

definition is_rebalance_complete :: "state \<Rightarrow> (bool \<times> state) option" where
  "is_rebalance_complete s =
     (case pg_stats s of
        [] \<Rightarrow> None
      | answer # later \<Rightarrow> Some (all_pgs_clean answer, (emit Run_pg_stat s)\<lparr>pg_stats := later\<rparr>))"

text \<open>The \<^verbatim>\<open>while not is_rebalance_complete()\<close> loop of \<^verbatim>\<open>wait_rebalance_to_complete\<close>.\<close>

function poll_until_complete :: "bool \<Rightarrow> state \<Rightarrow> state option" where
  "poll_until_complete be_quiet s =
     (case is_rebalance_complete s of
        None \<Rightarrow> None
      | Some (settled, s1) \<Rightarrow>
          if \<not> settled
          then poll_until_complete be_quiet (emit Sleep (if \<not> be_quiet then emit (Print Dot) s1 else s1))
          else Some s1)"
  by pat_completeness auto
termination
  by (relation "measure (\<lambda>(be_quiet, s). length (pg_stats s))")
     (auto simp: is_rebalance_complete_def emit_def split: list.splits)

declare poll_until_complete.simps [simp del]

definition wait_rebalance_to_complete :: "bool \<Rightarrow> bool \<Rightarrow> state \<Rightarrow> state option" where
  "wait_rebalance_to_complete be_quiet updates s =
     (case (if \<not> updates then is_rebalance_complete s else Some (False, s)) of
        None \<Rightarrow> None
      | Some (settled, s1) \<Rightarrow>
          if \<not> updates \<and> settled then Some s1
          else
            let s2 = (if \<not> be_quiet then emit (Print Waiting) s1 else s1);
                s3 = (if updates then emit Sleep s2 else s2)
            in (case poll_until_complete be_quiet s3 of
                  None \<Rightarrow> None
                | Some s4 \<Rightarrow> Some (if \<not> be_quiet then emit (Print Done_waiting) s4 else s4)))"

section \<open>Rebalance scheduler\<close>

text \<open>
  \<^verbatim>\<open>math.copysign(x, y)\<close>: the magnitude of \<open>x\<close> with the sign of \<open>y\<close>.  A real
  number has no negative zero; \<open>y = 0\<close> counts as positive, as \<^verbatim>\<open>0.0\<close> does.
\<close>

definition copysign :: "real \<Rightarrow> real \<Rightarrow> real" where
  "copysign x y = (if y < 0 then - \<bar>x\<bar> else \<bar>x\<bar>)"

text \<open>Python's slices \<^verbatim>\<open>xs[:k]\<close> and \<^verbatim>\<open>xs[k:]\<close>; a negative \<open>k\<close> counts from the end.\<close>

definition slice_to :: "int \<Rightarrow> 'a list \<Rightarrow> 'a list" where
  "slice_to k xs = (if 0 \<le> k then take (nat k) xs else take (nat (int (length xs) + k)) xs)"

definition slice_from :: "int \<Rightarrow> 'a list \<Rightarrow> 'a list" where
  "slice_from k xs = (if 0 \<le> k then drop (nat k) xs else drop (nat (int (length xs) + k)) xs)"

text \<open>\<^verbatim>\<open>int(x)\<close> on a float truncates towards zero.\<close>

definition py_int :: "real \<Rightarrow> int" where
  "py_int x = (if 0 \<le> x then \<lfloor>x\<rfloor> else \<lceil>x\<rceil>)"

text \<open>A \<^verbatim>\<open>for\<close> loop whose body may raise: the first exception ends the loop.\<close>

fun for_each :: "('s \<Rightarrow> 'a \<Rightarrow> 'e + 's) \<Rightarrow> 'a list \<Rightarrow> 's \<Rightarrow> 'e + 's" where
  "for_each body [] s = Inr s"
| "for_each body (x # xs) s =
     (case body s x of Inl e \<Rightarrow> Inl e | Inr s' \<Rightarrow> for_each body xs s')"

definition request_weight_update :: "bool \<Rightarrow> ref \<Rightarrow> path \<Rightarrow> real \<Rightarrow> state \<Rightarrow> state" where
  "request_weight_update be_quiet node p new_weight s =
     (let path_s = butlast p;
          s1 = (if \<not> be_quiet
                then emit (Print (Command_line (name (nodes s node)) new_weight path_s)) s
                else s)
      in emit (Run_crush_set (name (nodes s node)) new_weight path_s) s1)"

text \<open>
  The clamped step of one target (lines 272 to 277): the change towards the required
  weight, cut to \<^verbatim>\<open>max_weight_change\<close> with its sign kept.
\<close>

definition clamped_change :: "params \<Rightarrow> real \<Rightarrow> real \<Rightarrow> real" where
  "clamped_change p current required_weight =
     (let weight_change = required_weight - current in
      if \<bar>weight_change\<bar> > max_weight_change p
      then copysign (max_weight_change p) weight_change
      else weight_change)"

text \<open>
  The body of the loop over \<^verbatim>\<open>next_nodes\<close> (lines 271 to 290).  An exception carries the
  state in which it was raised, so that the events before it are not lost.
\<close>

definition service :: "params \<Rightarrow> state \<Rightarrow> target \<Rightarrow> (error \<times> state) + state" where
  "service p s t =
     (case t of (node, pth, required_weight) \<Rightarrow>
        (case weight (nodes s node) of
           None \<Rightarrow> Inl (TypeError, s)
         | Some current \<Rightarrow>
             let weight_change = clamped_change p current required_weight;
                 new_weight = current + weight_change;
                 s1 = (if \<bar>weight_change\<bar> > min_weight_diff p
                       then (request_weight_update (BE_QUIET p) node pth new_weight s)
                              \<lparr>any_updates := True\<rparr>
                       else s);
                 s2 = (if \<bar>new_weight - required_weight\<bar> < min_weight_diff p
                       then s1\<lparr>rebalance_nodes :=
                                 filter (\<lambda>(rnode, pth', w). rnode \<noteq> node) (rebalance_nodes s1)\<rparr>
                       else s1);
                 s3 = s2\<lparr>nodes := (nodes s2)(node := (nodes s2 node)\<lparr>weight := Some new_weight\<rparr>)\<rparr>
             in Inr (if \<not> BE_QUIET p
                     then s3\<lparr>already_changed := already_changed s3 + \<bar>weight_change\<bar>\<rparr>
                     else s3)))"

text \<open>
  The progress report at the head of a round (lines 260 to 262):
  \<^verbatim>\<open>int(already_changed * 100 // total_weight_change + 0.5)\<close>.
\<close>

definition report_progress :: "params \<Rightarrow> state \<Rightarrow> (error \<times> state) + state" where
  "report_progress p s =
     (if \<not> BE_QUIET p \<and> already_changed s > min_weight_diff p
      then
        if total_weight_change s = 0 then Inl (ZeroDivisionError, s)
        else Inr (emit (Print (Done_percent
               (py_int (of_int \<lfloor>already_changed s * 100 / total_weight_change s\<rfloor> + 0.5)))) s)
      else Inr s)"

text \<open>One round after its settle-wait (lines 260 to 290).\<close>

definition round_body :: "params \<Rightarrow> state \<Rightarrow> (error \<times> state) + state" where
  "round_body p s =
     (case report_progress p s of
        Inl e \<Rightarrow> Inl e
      | Inr s1 \<Rightarrow>
          let next_nodes = slice_to (max_nodes_per_round p) (rebalance_nodes s1);
              s2 = (if selection_algo p = ''rround''
                    then s1\<lparr>rebalance_nodes :=
                              slice_from (max_nodes_per_round p) (rebalance_nodes s1) @ next_nodes\<rparr>
                    else s1)
          in for_each (service p) next_nodes (s2\<lparr>any_updates := False\<rparr>))"

text \<open>
  The \<^verbatim>\<open>while rebalance_nodes\<close> loop (lines 257 to 290).  Every round starts with a
  settle-wait, which asks the cluster at least once, so the loop ends at the latest when
  the supplied answers do.
\<close>

function rebalance_loop :: "params \<Rightarrow> state \<Rightarrow> ((error \<times> state) + state) option" where
  "rebalance_loop p s =
     (if rebalance_nodes s = [] then Some (Inr s)
      else
        case wait_rebalance_to_complete (BE_QUIET p) (any_updates s) s of
          None \<Rightarrow> None
        | Some s1 \<Rightarrow>
            (case round_body p s1 of
               Inl e \<Rightarrow> Some (Inl e)
             | Inr s2 \<Rightarrow> rebalance_loop p s2))"
  by pat_completeness auto
termination
proof (relation "measure (\<lambda>(p, s). length (pg_stats s))")
  show "wf (measure (\<lambda>(p, s). length (pg_stats s)))"
    by simp
next
  fix p :: params and s s1 :: state and s2 :: state
  assume waited: "wait_rebalance_to_complete (BE_QUIET p) (any_updates s) s = Some s1"
    and served: "round_body p s1 = Inr s2"
  have check: "length (pg_stats b) < length (pg_stats a)"
    if "is_rebalance_complete a = Some (c, b)" for a b c
    using that by (auto simp: is_rebalance_complete_def emit_def split: list.splits)
  have poll: "length (pg_stats b) < length (pg_stats a)"
    if "poll_until_complete q a = Some b" for q a b
    using that
  proof (induction q a rule: poll_until_complete.induct)
    case (1 be_quiet a)
    obtain c a1 where a1: "is_rebalance_complete a = Some (c, a1)"
      using "1.prems" by (auto simp: poll_until_complete.simps [of be_quiet a] split: option.splits)
    show ?case
    proof (cases c)
      case True
      then show ?thesis
        using "1.prems" a1 check [OF a1] by (simp add: poll_until_complete.simps [of be_quiet a])
    next
      case False
      then have "length (pg_stats b)
                 < length (pg_stats (emit Sleep (if \<not> be_quiet then emit (Print Dot) a1 else a1)))"
        using "1.IH" [OF a1 refl] "1.prems" a1
        by (simp add: poll_until_complete.simps [of be_quiet a])
      then show ?thesis
        using check [OF a1] by (simp add: emit_def split: if_splits)
    qed
  qed
  have wait: "length (pg_stats s1) < length (pg_stats s)"
    using waited check poll
    by (fastforce simp: wait_rebalance_to_complete_def Let_def emit_def
          split: if_splits option.splits prod.splits)
  have step: "pg_stats b = pg_stats a" if "service p a t = Inr b" for a b t
    using that
    by (auto simp: service_def request_weight_update_def emit_def Let_def
          split: prod.splits option.splits if_splits)
  have batch: "pg_stats b = pg_stats a" if "for_each (service p) ts a = Inr b" for ts a b
    using that
  proof (induction ts arbitrary: a)
    case Nil
    then show ?case by simp
  next
    case (Cons t ts)
    then show ?case
      using step by (fastforce split: sum.splits)
  qed
  have "pg_stats s2 = pg_stats s1"
    using served batch
    by (fastforce simp: round_body_def report_progress_def emit_def Let_def
          split: sum.splits if_splits)
  then show "((p, s2), (p, s)) \<in> measure (\<lambda>(p, s). length (pg_stats s))"
    using wait by simp
qed

declare rebalance_loop.simps [simp del]

section \<open>Configuration and the whole run\<close>

text \<open>
  The YAML configuration: \<^verbatim>\<open>config.get(key, default)\<close> for the four options, and the
  list \<^verbatim>\<open>config['osds']\<close>, each entry a dictionary holding \<^verbatim>\<open>weight\<close> and the
  location keys (kept in the dictionary's order).
\<close>

record osd_entry =
  osd_weight :: real
  osd_location :: "(string \<times> string) list"

record config =
  cfg_max_reweight :: "int option"
  cfg_step :: "real option"
  cfg_min_weight_diff :: "real option"
  cfg_osd_selection :: "string option"
  cfg_osds :: "osd_entry list"

record args =
  quiet :: bool
  estimate_only :: bool
  no_estimate :: bool

definition default_zone_order :: "string list" where
  "default_zone_order =
     [''osd'', ''host'', ''chassis'', ''rack'', ''row'', ''pdu'',
      ''pod'', ''room'', ''datacenter'', ''region'', ''root'']"

text \<open>\<^verbatim>\<open>list.index\<close>: the position of the first occurrence.\<close>

fun index_of :: "'a \<Rightarrow> 'a list \<Rightarrow> nat" where
  "index_of x [] = 0"
| "index_of x (y # ys) = (if x = y then 0 else Suc (index_of x ys))"

text \<open>
  \<^verbatim>\<open>path.sort(key=lambda x: -default_zone_order.index(x[0]))\<close>: a stable sort, coarsest
  level first; a key outside \<^verbatim>\<open>default_zone_order\<close> raises \<^verbatim>\<open>ValueError\<close>.
\<close>

definition sort_path :: "path \<Rightarrow> error + path" where
  "sort_path p =
     (case filter (\<lambda>x. fst x \<notin> set default_zone_order) p of
        x # later \<Rightarrow> Inl (ValueError (fst x))
      | [] \<Rightarrow> Inr (sort_key (\<lambda>x. - int (index_of (fst x) default_zone_order)) p))"

text \<open>The body of the loop over \<^verbatim>\<open>config['osds']\<close> (lines 205 to 215).\<close>

definition resolve_target :: "bool \<Rightarrow> Crush \<Rightarrow> state \<Rightarrow> osd_entry \<Rightarrow> (error \<times> state) + state" where
  "resolve_target be_quiet crush s entry =
     (let new_weight = osd_weight entry in
      case sort_path (osd_location entry) of
        Inl e \<Rightarrow> Inl (e, s)
      | Inr p \<Rightarrow>
          (case find_node (nodes s) crush p of
             Inl e \<Rightarrow> Inl (e, s)
           | Inr node \<Rightarrow>
               let s1 = s\<lparr>rebalance_nodes := rebalance_nodes s @ [(node, p, new_weight)]\<rparr> in
               if \<not> be_quiet
               then
                 let s2 = emit (Print (Target_line (nodes s1 node) new_weight)) s1 in
                 (case weight (nodes s2 node) of
                    None \<Rightarrow> Inl (TypeError, s2)
                  | Some current \<Rightarrow>
                      Inr (s2\<lparr>total_weight_change :=
                                total_weight_change s2 + \<bar>current - new_weight\<bar>\<rparr>))
               else Inr s1))"

text \<open>
  The estimation step (lines 225 to 248).  \<^verbatim>\<open>tmpnam\<close>, \<^verbatim>\<open>run\<close>, \<^verbatim>\<open>calculate_remap\<close> and
  \<^verbatim>\<open>b2ssize\<close> live in other modules; their calls are recorded as events, and the two
  totals they produce are printed but never used again.
\<close>

definition estimate :: "state \<Rightarrow> state" where
  "estimate s =
     s\<lparr>trace := trace s
          @ [Tmpnam, Run_getmap, Tmpnam, Run_export_crush]
          @ map (\<lambda>(node, p, new_weight).
                   Run_update_item (node_id (nodes s node)) new_weight (name (nodes s node)) p)
                (rebalance_nodes s)
          @ [Tmpnam, Copy_map, Run_import_crush, Calculate_remap,
             Print Total_bytes, Print Total_PG]\<rparr>"

definition read_params :: "bool \<Rightarrow> config \<Rightarrow> params" where
  "read_params be_quiet config =
     \<lparr>max_nodes_per_round = (case cfg_max_reweight config of None \<Rightarrow> 4 | Some v \<Rightarrow> v),
      max_weight_change = (case cfg_step config of None \<Rightarrow> 0.5 | Some v \<Rightarrow> v),
      min_weight_diff = (case cfg_min_weight_diff config of None \<Rightarrow> 0.01 | Some v \<Rightarrow> v),
      selection_algo = (case cfg_osd_selection config of None \<Rightarrow> ''rround'' | Some v \<Rightarrow> v),
      BE_QUIET = be_quiet\<rparr>"

text \<open>
  \<^verbatim>\<open>do_rebalance\<close>.  Its inputs from the outside are the topology that
  \<^verbatim>\<open>load_crush_tree\<close> builds from the answer to \<^verbatim>\<open>ceph osd tree\<close> (the node objects and
  the \<^verbatim>\<open>Crush\<close> value), the cluster's answers to the health queries, and the global
  \<^verbatim>\<open>BE_QUIET\<close> that \<^verbatim>\<open>main\<close> sets from \<^verbatim>\<open>--quiet\<close>.
\<close>

definition do_rebalance ::
  "store \<times> Crush \<Rightarrow> pg_state_count list list \<Rightarrow> bool \<Rightarrow> config \<Rightarrow> args
     \<Rightarrow> ((error \<times> state) + state) option" where
  "do_rebalance osd_tree answers be_quiet config a =
     (let crush = snd osd_tree;
          p = read_params be_quiet config;
          s0 = \<lparr>nodes = fst osd_tree, pg_stats = answers, trace = [Run_osd_tree],
                rebalance_nodes = [], total_weight_change = 0, already_changed = 0,
                any_updates = False\<rparr>
      in case for_each (resolve_target be_quiet crush) (cfg_osds config) s0 of
           Inl e \<Rightarrow> Some (Inl e)
         | Inr s1 \<Rightarrow>
             if \<not> be_quiet \<and> total_weight_change s1 < min_weight_diff p
             then Some (Inr (emit (Print Nothing_to_change) s1))
             else
               let s2 = (if \<not> be_quiet then emit (Print (Total_sum (total_weight_change s1))) s1
                         else s1);
                   s3 = (if \<not> no_estimate a then estimate s2 else s2)
               in if \<not> no_estimate a \<and> estimate_only a then Some (Inr s3)
                  else
                    (case rebalance_loop p (s3\<lparr>any_updates := False\<rparr>) of
                       None \<Rightarrow> None
                     | Some (Inl e) \<Rightarrow> Some (Inl e)
                     | Some (Inr s4) \<Rightarrow>
                         (case wait_rebalance_to_complete be_quiet False s4 of
                            None \<Rightarrow> None
                          | Some s5 \<Rightarrow> Some (Inr s5))))"

section \<open>Definitions used to state the properties\<close>

text \<open>
  The first clean answer among the pending ones: how many answers before it are not clean,
  and the answers left after it.
\<close>

fun await_clean :: "pg_state_count list list \<Rightarrow> (nat \<times> pg_state_count list list) option" where
  "await_clean [] = None"
| "await_clean (r # rs) =
     (if all_pgs_clean r then Some (0, rs)
      else case await_clean rs of None \<Rightarrow> None | Some (n, later) \<Rightarrow> Some (Suc n, later))"

text \<open>The events of the polling loop that meets \<open>n\<close> answers that are not clean.\<close>

definition poll_events :: "bool \<Rightarrow> nat \<Rightarrow> event list" where
  "poll_events be_quiet n =
     concat (replicate n (Run_pg_stat # (if \<not> be_quiet then [Print Dot] else []) @ [Sleep]))
     @ [Run_pg_stat]"

text \<open>The events of one settle-wait that meets \<open>n\<close> answers that are not clean.\<close>

definition wait_events :: "bool \<Rightarrow> bool \<Rightarrow> nat \<Rightarrow> event list" where
  "wait_events be_quiet updates n =
     (if updates
      then (if \<not> be_quiet then [Print Waiting] else []) @ [Sleep] @ poll_events be_quiet n
           @ (if \<not> be_quiet then [Print Done_waiting] else [])
      else if n = 0 then [Run_pg_stat]
      else [Run_pg_stat] @ (if \<not> be_quiet then [Print Waiting] else [])
           @ poll_events be_quiet (n - 1)
           @ (if \<not> be_quiet then [Print Done_waiting] else []))"

text \<open>
  The number of rounds a target at distance \<open>d\<close> from its required weight stays in the
  queue, for step \<open>S\<close> and tolerance \<open>E\<close>; and the number the specification gives
  (section 8, Convergence), written from its words.
\<close>

definition rounds_needed :: "real \<Rightarrow> real \<Rightarrow> real \<Rightarrow> nat" where
  "rounds_needed S E d = (if d < E then 1 else nat \<lfloor>(d - E) / S\<rfloor> + 1)"


text \<open>The events of a run, whether it ends normally or with an exception.\<close>

fun run_trace :: "((error \<times> state) + state) option \<Rightarrow> event list option" where
  "run_trace None = None"
| "run_trace (Some (Inl (e, s))) = Some (trace s)"
| "run_trace (Some (Inr s)) = Some (trace s)"

fun weight_updates :: "event list \<Rightarrow> (string \<times> real) list" where
  "weight_updates [] = []"
| "weight_updates (Run_crush_set nm w pth # evs) = (nm, w) # weight_updates evs"
| "weight_updates (e # evs) = weight_updates evs"

text \<open>The state in which a step ended, normally or with an exception.\<close>

fun final_state :: "(error \<times> state) + state \<Rightarrow> state" where
  "final_state (Inl (e, s)) = s"
| "final_state (Inr s) = s"


text \<open>
  The absolute difference between the current and the required weight of a configured
  entry, when the entry resolves to a node that has a weight (the summand of line 215).
\<close>

definition entry_delta :: "store \<Rightarrow> Crush \<Rightarrow> osd_entry \<Rightarrow> real option" where
  "entry_delta h crush entry =
     (case sort_path (osd_location entry) of
        Inl e \<Rightarrow> None
      | Inr p \<Rightarrow>
          (case find_node h crush p of
             Inl e \<Rightarrow> None
           | Inr node \<Rightarrow>
               (case weight (h node) of
                  None \<Rightarrow> None
                | Some current \<Rightarrow> Some \<bar>current - osd_weight entry\<bar>)))"

subsection \<open>The example cluster\<close>

text \<open>
  One root \<open>default\<close>, one host \<open>osd-0\<close>, three devices of weight 0.5; the configuration
  of the end-to-end scenario of the specification (step 0.1).
\<close>

definition example_nodes :: store where
  "example_nodes =
     (\<lambda>r. \<lparr>node_id = 0, weight = None, name = [], type = [], childs = []\<rparr>)
     (0 := \<lparr>node_id = -1, weight = None, name = ''default'', type = ''root'', childs = [1]\<rparr>,
      1 := \<lparr>node_id = -2, weight = None, name = ''osd-0'', type = ''host'', childs = [2, 3, 4]\<rparr>,
      2 := \<lparr>node_id = 0, weight = Some 0.5, name = ''osd.0'', type = ''osd'', childs = []\<rparr>,
      3 := \<lparr>node_id = 1, weight = Some 0.5, name = ''osd.1'', type = ''osd'', childs = []\<rparr>,
      4 := \<lparr>node_id = 2, weight = Some 0.5, name = ''osd.2'', type = ''osd'', childs = []\<rparr>)"

definition example_crush :: Crush where
  "example_crush = \<lparr>nodes_map = [-1 \<mapsto> 0, -2 \<mapsto> 1, 0 \<mapsto> 2, 1 \<mapsto> 3, 2 \<mapsto> 4], roots = [0]\<rparr>"

definition example_path :: "string \<Rightarrow> path" where
  "example_path osd = [(''root'', ''default''), (''host'', ''osd-0''), (''osd'', osd)]"

definition clean_answer :: "pg_state_count list" where
  "clean_answer = [\<lparr>pg_name = ''active+clean'', num = 64\<rparr>]"

definition example_entry :: "string \<Rightarrow> real \<Rightarrow> osd_entry" where
  "example_entry osd w =
     \<lparr>osd_weight = w, osd_location = [(''osd'', osd), (''root'', ''default''), (''host'', ''osd-0'')]\<rparr>"

definition example_config :: "int \<Rightarrow> real \<Rightarrow> osd_entry list \<Rightarrow> config" where
  "example_config m E entries =
     \<lparr>cfg_max_reweight = Some m, cfg_step = Some 0.1, cfg_min_weight_diff = Some E,
      cfg_osd_selection = None, cfg_osds = entries\<rparr>"

definition example_params :: "int \<Rightarrow> real \<Rightarrow> params" where
  "example_params m E =
     \<lparr>max_nodes_per_round = m, max_weight_change = 0.1, min_weight_diff = E,
      selection_algo = ''rround'', BE_QUIET = True\<rparr>"

definition example_state :: "pg_state_count list list \<Rightarrow> target list \<Rightarrow> state" where
  "example_state answers targets =
     \<lparr>nodes = example_nodes, pg_stats = answers, trace = [Run_osd_tree],
      rebalance_nodes = targets, total_weight_change = 0, already_changed = 0,
      any_updates = False\<rparr>"

lemmas run_defs =
  do_rebalance_def read_params_def resolve_target_def sort_path_def default_zone_order_def
  find_node_def find_nodes_def expand_matching_def node_matches_def
  wait_rebalance_to_complete_def is_rebalance_complete_def emit_def
  round_body_def report_progress_def slice_to_def slice_from_def service_def
  clamped_change_def copysign_def request_weight_update_def estimate_def Let_def

lemmas example_defs =
  example_nodes_def example_crush_def example_path_def clean_answer_def example_entry_def
  example_config_def example_params_def example_state_def

section \<open>Path resolution\<close>

lemma fold_extend_childs:
  "fold (\<lambda>node acc. if node_matches h seg node then acc @ childs (h node) else acc) xs acc0
   = acc0 @ concat (map (\<lambda>n. childs (h n)) (filter (node_matches h seg) xs))"
  by (induction xs arbitrary: acc0) auto

lemma expand_matching_concat:
  "expand_matching h seg xs = concat (map (\<lambda>n. childs (h n)) (filter (node_matches h seg) xs))"
  by (simp add: expand_matching_def fold_extend_childs)

lemma fold_expand_candidates:
  "fold (expand_matching h) p cands = candidates_spec h cands p"
  by (induction p arbitrary: cands) (auto simp: expand_matching_concat)

lemma fold_append_matching:
  "fold (\<lambda>node res. if P node then res @ [node] else res) xs acc0 = acc0 @ filter P xs"
  by (induction xs arbitrary: acc0) auto

lemma find_nodes_final_segment:
  "find_nodes h crush (p @ [seg]) = filter (node_matches h seg) (candidates_spec h (roots crush) p)"
  by (simp add: find_nodes_def fold_expand_candidates fold_append_matching)

text \<open>
  C5.  Resolution of a path with a final segment: the nodes found are the candidates
  reached through the earlier segments, filtered to those that match the final segment
  directly (no expansion to children); \<^verbatim>\<open>find_node\<close> returns the node when exactly one is
  found, fails with the not-found error when none is, and with the ambiguity error when
  more than one remains.  The last conjunct says the same of any path \<open>q\<close>, the empty
  one included, in terms of the nodes \<^verbatim>\<open>find_nodes\<close> returns.  (Both errors are
  Python's \<^verbatim>\<open>IndexError\<close>, told apart by their messages.)
\<close>

theorem find_node_resolves:
  "find_nodes h crush (p @ [seg]) =
     filter (node_matches h seg) (candidates_spec h (roots crush) p)
   \<and> find_node h crush (p @ [seg]) =
     (case filter (node_matches h seg) (candidates_spec h (roots crush) p) of
        [] \<Rightarrow> Inl (IndexError_not_found (p @ [seg]))
      | [n] \<Rightarrow> Inr n
      | n # m # ms \<Rightarrow> Inl (IndexError_ambiguous (Suc (Suc (length ms))) (p @ [seg])))
   \<and> find_node h crush q =
     (case find_nodes h crush q of
        [] \<Rightarrow> Inl (IndexError_not_found q)
      | [n] \<Rightarrow> Inr n
      | n # m # ms \<Rightarrow> Inl (IndexError_ambiguous (Suc (Suc (length ms))) q))"
proof -
  let ?found = "filter (node_matches h seg) (candidates_spec h (roots crush) p)"
  have any_path: "find_node h crush q =
     (case find_nodes h crush q of
        [] \<Rightarrow> Inl (IndexError_not_found q)
      | [n] \<Rightarrow> Inr n
      | n # m # ms \<Rightarrow> Inl (IndexError_ambiguous (Suc (Suc (length ms))) q))"
    by (simp add: find_node_def Let_def split: list.splits)
  have nodes: "find_nodes h crush (p @ [seg]) = ?found"
    by (rule find_nodes_final_segment)
  have "find_node h crush (p @ [seg]) =
     (case ?found of
        [] \<Rightarrow> Inl (IndexError_not_found (p @ [seg]))
      | [n] \<Rightarrow> Inr n
      | n # m # ms \<Rightarrow> Inl (IndexError_ambiguous (Suc (Suc (length ms))) (p @ [seg])))"
    unfolding find_node_def nodes by (simp add: Let_def split: list.splits)
  with nodes any_path show ?thesis by simp
qed

theorem find_node_resolves_witness:
  "find_node example_nodes example_crush (example_path ''osd.0'') = Inr 2
   \<and> find_node example_nodes example_crush (example_path ''missing'')
       = Inl (IndexError_not_found (example_path ''missing''))
   \<and> find_node (example_nodes(3 := example_nodes 2)) example_crush (example_path ''osd.0'')
       = Inl (IndexError_ambiguous 2 (example_path ''osd.0''))"
  using find_node_resolves [of example_nodes example_crush
          "[(''root'', ''default''), (''host'', ''osd-0'')]" "(''osd'', ''osd.0'')"]
    find_node_resolves [of example_nodes example_crush
          "[(''root'', ''default''), (''host'', ''osd-0'')]" "(''osd'', ''missing'')"]
    find_node_resolves [of "example_nodes(3 := example_nodes 2)" example_crush
          "[(''root'', ''default''), (''host'', ''osd-0'')]" "(''osd'', ''osd.0'')"]
  by (simp add: example_defs node_matches_def)

text \<open>
  C10.  With an empty path \<^verbatim>\<open>find_nodes\<close> returns exactly the roots; so \<^verbatim>\<open>find_node\<close>
  returns the root of a topology with one root and fails with the ambiguity error when
  there are several roots.
\<close>

theorem find_nodes_empty_path:
  "find_nodes h crush [] = roots crush
   \<and> (\<forall>r. roots crush = [r] \<longrightarrow> find_node h crush [] = Inr r)
   \<and> (1 < length (roots crush) \<longrightarrow>
        find_node h crush [] = Inl (IndexError_ambiguous (length (roots crush)) []))"
  by (auto simp: find_node_def find_nodes_def Let_def)

theorem find_nodes_empty_path_witness:
  "find_nodes example_nodes example_crush [] = [0]
   \<and> find_node example_nodes example_crush [] = Inr 0
   \<and> find_node example_nodes (example_crush\<lparr>roots := [0, 1]\<rparr>) []
       = Inl (IndexError_ambiguous 2 [])"
  using find_nodes_empty_path [of example_nodes example_crush]
    find_nodes_empty_path [of example_nodes "example_crush\<lparr>roots := [0, 1]\<rparr>"]
  by (simp add: example_crush_def)

section \<open>Completion monitor\<close>

lemma all_pgs_clean_iff:
  "all_pgs_clean answer = (\<forall>dct\<in>set answer. pg_name dct = ''active+clean'' \<or> num dct = 0)"
  by (induction answer) auto

text \<open>
  C8.  The completion check reports the cluster settled exactly when every entry of the
  answer either carries the state name \<^verbatim>\<open>active+clean\<close> or has count zero.
\<close>

theorem is_rebalance_complete_iff:
  assumes "pg_stats s = answer # later"
  shows "is_rebalance_complete s =
           Some ((\<forall>dct\<in>set answer. pg_name dct = ''active+clean'' \<or> num dct = 0),
                 (emit Run_pg_stat s)\<lparr>pg_stats := later\<rparr>)"
  using assms by (simp add: is_rebalance_complete_def all_pgs_clean_iff)

theorem is_rebalance_complete_iff_witness:
  "is_rebalance_complete
     (example_state [[\<lparr>pg_name = ''active+clean'', num = 60\<rparr>,
                      \<lparr>pg_name = ''active+remapped'', num = 0\<rparr>],
                     [\<lparr>pg_name = ''active+clean'', num = 60\<rparr>,
                      \<lparr>pg_name = ''active+remapped'', num = 4\<rparr>]] [])
   = Some (True, (emit Run_pg_stat (example_state [] []))
                  \<lparr>pg_stats := [[\<lparr>pg_name = ''active+clean'', num = 60\<rparr>,
                                  \<lparr>pg_name = ''active+remapped'', num = 4\<rparr>]]\<rparr>)
   \<and> fst (the (is_rebalance_complete
        (example_state [[\<lparr>pg_name = ''active+clean'', num = 60\<rparr>,
                         \<lparr>pg_name = ''active+remapped'', num = 4\<rparr>]] []))) = False"
  using is_rebalance_complete_iff [of "example_state [[\<lparr>pg_name = ''active+clean'', num = 60\<rparr>,
                      \<lparr>pg_name = ''active+remapped'', num = 0\<rparr>],
                     [\<lparr>pg_name = ''active+clean'', num = 60\<rparr>,
                      \<lparr>pg_name = ''active+remapped'', num = 4\<rparr>]] []"]
    is_rebalance_complete_iff [of "example_state [[\<lparr>pg_name = ''active+clean'', num = 60\<rparr>,
                         \<lparr>pg_name = ''active+remapped'', num = 4\<rparr>]] []"]
  by (simp add: example_state_def emit_def)

lemma poll_until_complete_eq:
  "poll_until_complete q s =
     (case await_clean (pg_stats s) of
        None \<Rightarrow> None
      | Some (n, later) \<Rightarrow> Some (s\<lparr>pg_stats := later, trace := trace s @ poll_events q n\<rparr>))"
proof (induction q s rule: poll_until_complete.induct)
  case (1 q s)
  show ?case
  proof (cases "pg_stats s")
    case Nil
    then show ?thesis
      by (simp add: poll_until_complete.simps [of q s] is_rebalance_complete_def)
  next
    case (Cons r rs)
    show ?thesis
    proof (cases "all_pgs_clean r")
      case True
      then show ?thesis
        using Cons
        by (simp add: poll_until_complete.simps [of q s] is_rebalance_complete_def
              emit_def poll_events_def)
    next
      case False
      define s1 where "s1 = (emit Run_pg_stat s)\<lparr>pg_stats := rs\<rparr>"
      define s2 where "s2 = emit Sleep (if \<not> q then emit (Print Dot) s1 else s1)"
      have chk: "is_rebalance_complete s = Some (False, s1)"
        using Cons False by (simp add: is_rebalance_complete_def s1_def)
      have stats: "pg_stats s2 = rs"
        by (simp add: s2_def s1_def emit_def)
      have upd: "s2\<lparr>pg_stats := later, trace := trace s2 @ poll_events q n\<rparr>
          = s\<lparr>pg_stats := later, trace := trace s @ poll_events q (Suc n)\<rparr>" for later n
        by (simp add: s2_def s1_def emit_def poll_events_def)
      have "poll_until_complete q s = poll_until_complete q s2"
        using chk by (simp add: poll_until_complete.simps [of q s] s2_def)
      also have "\<dots> = (case await_clean rs of
        None \<Rightarrow> None
      | Some (n, later) \<Rightarrow> Some (s2\<lparr>pg_stats := later, trace := trace s2 @ poll_events q n\<rparr>))"
        using "1.IH" [OF chk refl, folded s2_def] by (simp add: stats)
      finally show ?thesis
        using Cons False by (auto simp: upd split: option.splits)
    qed
  qed
qed

lemma wait_rebalance_to_complete_eq:
  "wait_rebalance_to_complete q u s =
     (case await_clean (pg_stats s) of
        None \<Rightarrow> None
      | Some (n, later) \<Rightarrow> Some (s\<lparr>pg_stats := later, trace := trace s @ wait_events q u n\<rparr>))"
proof (cases u)
  case True
  then show ?thesis
    by (auto simp: wait_rebalance_to_complete_def poll_until_complete_eq emit_def wait_events_def
          Let_def split: option.splits)
next
  case False
  show ?thesis
  proof (cases "pg_stats s")
    case Nil
    then show ?thesis
      using False by (simp add: wait_rebalance_to_complete_def is_rebalance_complete_def)
  next
    case (Cons r rs)
    then show ?thesis
      using False
      by (cases "all_pgs_clean r")
         (auto simp: wait_rebalance_to_complete_def is_rebalance_complete_def
            poll_until_complete_eq emit_def wait_events_def Let_def split: option.splits)
  qed
qed





section \<open>One target in one round\<close>







section \<open>Rounds to convergence\<close>


lemma rounds_needed_le_ceiling:
  assumes "0 < S" "0 < E"
  shows "int (rounds_needed S E d) \<le> max 1 \<lceil>d / S\<rceil>"
proof (cases "d < E")
  case True
  then show ?thesis by (simp add: rounds_needed_def)
next
  case False
  have "(d - E) / S < d / S"
    using assms by (simp add: field_simps)
  then have "\<lfloor>(d - E) / S\<rfloor> < \<lceil>d / S\<rceil>"
    by linarith
  moreover have "0 \<le> \<lfloor>(d - E) / S\<rfloor>"
    using False assms by simp
  ultimately show ?thesis
    using False by (simp add: rounds_needed_def)
qed





section \<open>Weight-update commands of a round\<close>

lemma weight_updates_append:
  "weight_updates (xs @ ys) = weight_updates xs @ weight_updates ys"
  by (induction xs rule: weight_updates.induct) simp_all

lemma service_trace:
  "\<exists>evs. trace (final_state (service p s t)) = trace s @ evs \<and> length (weight_updates evs) \<le> 1"
proof (cases t)
  case (fields node pth W)
  show ?thesis
  proof (cases "weight (nodes s node)")
    case None
    then show ?thesis
      using fields by (simp add: service_def)
  next
    case (Some W0)
    show ?thesis
    proof (cases "\<bar>clamped_change p W0 W\<bar> > min_weight_diff p")
      case True
      then show ?thesis
        using fields Some
        by (simp add: service_def request_weight_update_def emit_def Let_def)
    next
      case False
      then show ?thesis
        using fields Some by (simp add: service_def Let_def)
    qed
  qed
qed

lemma for_each_service_trace:
  "\<exists>evs. trace (final_state (for_each (service p) ts s)) = trace s @ evs
         \<and> length (weight_updates evs) \<le> length ts"
proof (induction ts arbitrary: s)
  case Nil
  then show ?case by simp
next
  case (Cons t ts)
  obtain evs where evs: "trace (final_state (service p s t)) = trace s @ evs"
    "length (weight_updates evs) \<le> 1"
    using service_trace by blast
  show ?case
  proof (cases "service p s t")
    case (Inl failure)
    then show ?thesis
      using evs by (cases failure) auto
  next
    case (Inr s1)
    obtain evs' where "trace (final_state (for_each (service p) ts s1)) = trace s1 @ evs'"
      "length (weight_updates evs') \<le> length ts"
      using Cons.IH by blast
    then have "trace (final_state (for_each (service p) (t # ts) s)) = trace s @ (evs @ evs')"
      "length (weight_updates (evs @ evs')) \<le> length (t # ts)"
      using Inr evs by (simp_all add: weight_updates_append)
    then show ?thesis by blast
  qed
qed

text \<open>
  C6, as amended.  When \<^verbatim>\<open>max_reweight\<close> is not negative, a round (whether it ends
  normally or with an exception) adds to the events at most \<^verbatim>\<open>max_reweight\<close>
  weight-update commands.
\<close>

theorem round_updates_bounded:
  assumes "0 \<le> max_nodes_per_round p"
  shows "\<exists>evs. trace (final_state (round_body p s)) = trace s @ evs
           \<and> int (length (weight_updates evs)) \<le> max_nodes_per_round p"
proof (cases "report_progress p s")
  case (Inl failure)
  moreover have "snd failure = s"
    using Inl by (auto simp: report_progress_def split: if_splits)
  ultimately show ?thesis
    using assms by (cases failure) (simp add: round_body_def)
next
  case (Inr s1)
  let ?next = "slice_to (max_nodes_per_round p) (rebalance_nodes s1)"
  let ?s2 = "(if selection_algo p = ''rround''
              then s1\<lparr>rebalance_nodes :=
                        slice_from (max_nodes_per_round p) (rebalance_nodes s1) @ ?next\<rparr>
              else s1)\<lparr>any_updates := False\<rparr>"
  obtain evs0 where evs0: "trace s1 = trace s @ evs0" "weight_updates evs0 = []"
    using Inr by (auto simp: report_progress_def emit_def split: if_splits)
  obtain evs where evs: "trace (final_state (for_each (service p) ?next ?s2)) = trace ?s2 @ evs"
    "length (weight_updates evs) \<le> length ?next"
    using for_each_service_trace by blast
  have "length ?next \<le> nat (max_nodes_per_round p)"
    using assms by (simp add: slice_to_def)
  moreover have "round_body p s = for_each (service p) ?next ?s2"
    using Inr by (simp add: round_body_def Let_def)
  moreover have "trace ?s2 = trace s @ evs0"
    using evs0 by simp
  ultimately have "trace (final_state (round_body p s)) = trace s @ (evs0 @ evs)"
    "int (length (weight_updates (evs0 @ evs))) \<le> max_nodes_per_round p"
    using evs evs0 assms by (simp_all add: weight_updates_append)
  then show ?thesis by blast
qed

theorem round_updates_bounded_witness:
  "(0::int) \<le> max_nodes_per_round (example_params 2 0.01)
   \<and> (\<exists>evs. trace (final_state (round_body (example_params 2 0.01)
          (example_state [] [(2, example_path ''osd.0'', 0.3), (3, example_path ''osd.1'', 0.3),
                             (4, example_path ''osd.2'', 0.3)])))
        = [Run_osd_tree] @ evs
      \<and> int (length (weight_updates evs)) \<le> 2)"
  using round_updates_bounded [of "example_params 2 0.01"
      "example_state [] [(2, example_path ''osd.0'', 0.3), (3, example_path ''osd.1'', 0.3),
                         (4, example_path ''osd.2'', 0.3)]"]
  by (simp add: example_params_def example_state_def)

text \<open>
  The claim C6 as stated ("for every configuration") fails for a negative
  \<^verbatim>\<open>max_reweight\<close>: Python's slice \<^verbatim>\<open>rebalance_nodes[:-1]\<close> is all but the last target,
  so with three targets and \<^verbatim>\<open>max_reweight = -1\<close> one round issues two commands.
\<close>

theorem negative_max_reweight_exceeds:
  "weight_updates (trace (final_state (round_body (example_params (- 1) 0.01)
      (example_state [] [(2, example_path ''osd.0'', 0.3), (3, example_path ''osd.1'', 0.3),
                         (4, example_path ''osd.2'', 0.3)]))))
   = [(''osd.0'', 0.4), (''osd.1'', 0.4)]
   \<and> max_nodes_per_round (example_params (- 1) 0.01) = - 1"
  by (simp add: run_defs example_defs)

section \<open>Commands and eviction\<close>




section \<open>Settle-waits\<close>

text \<open>
  A settle-wait that is told of updates sleeps before its first health query; one that is
  not told of any queries at once.
\<close>

lemma poll_events_starts_with_query:
  "\<exists>evs. poll_events q n = Run_pg_stat # evs"
  by (cases n) (simp_all add: poll_events_def)

lemma wait_after_updates_sleeps_first:
  assumes "wait_rebalance_to_complete q True s = Some s'"
  shows "\<exists>evs. trace s' = trace s @ (if \<not> q then [Print Waiting] else []) @ Sleep # Run_pg_stat # evs"
proof -
  obtain n later where "s' = s\<lparr>pg_stats := later, trace := trace s @ wait_events q True n\<rparr>"
    using assms by (auto simp: wait_rebalance_to_complete_eq split: option.splits)
  moreover obtain evs where "poll_events q n = Run_pg_stat # evs"
    using poll_events_starts_with_query by blast
  ultimately show ?thesis
    by (simp add: wait_events_def)
qed

lemma wait_without_updates_queries_first:
  assumes "wait_rebalance_to_complete q False s = Some s'"
  shows "\<exists>evs. trace s' = trace s @ Run_pg_stat # evs"
proof -
  obtain n later where "s' = s\<lparr>pg_stats := later, trace := trace s @ wait_events q False n\<rparr>"
    using assms by (auto simp: wait_rebalance_to_complete_eq split: option.splits)
  then show ?thesis
    by (simp add: wait_events_def)
qed

text \<open>
  C7.  The waits inside the loop are passed \<^verbatim>\<open>any_updates\<close>, but the final wait of
  \<^verbatim>\<open>do_rebalance\<close> is \<^verbatim>\<open>wait_rebalance_to_complete(False)\<close>.  In the run below (one
  target, 0.5 to 0.4, step 0.1) the only round issues a command, and the final wait asks
  the cluster for its health immediately after it, with no sleep in between: when the
  answer is clean the run ends at once.
\<close>

theorem final_wait_skips_grace:
  "run_trace (do_rebalance (example_nodes, example_crush) [clean_answer, clean_answer] True
       (example_config 1 0.01 [example_entry ''osd.0'' 0.4])
       \<lparr>quiet = True, estimate_only = False, no_estimate = True\<rparr>)
   = Some [Run_osd_tree, Run_pg_stat,
           Run_crush_set ''osd.0'' 0.4 [(''root'', ''default''), (''host'', ''osd-0'')],
           Run_pg_stat]"
  by (simp add: run_defs example_defs rebalance_loop.simps poll_until_complete.simps)

section \<open>Aggregate no-op\<close>

lemma resolve_target_loud:
  assumes "entry_delta (nodes s) crush entry = Some d"
  shows "\<exists>s' line. resolve_target False crush s entry = Inr s'
           \<and> trace s' = trace s @ [Print line]
           \<and> total_weight_change s' = total_weight_change s + d
           \<and> nodes s' = nodes s \<and> pg_stats s' = pg_stats s"
  using assms
  by (auto simp: entry_delta_def resolve_target_def emit_def Let_def
        split: sum.splits option.splits)

lemma resolve_all_loud:
  assumes "those (map (entry_delta (nodes s) crush) entries) = Some ds"
  shows "\<exists>s' lines. for_each (resolve_target False crush) entries s = Inr s'
           \<and> trace s' = trace s @ map Print lines
           \<and> total_weight_change s' = total_weight_change s + sum_list ds
           \<and> nodes s' = nodes s \<and> pg_stats s' = pg_stats s"
  using assms
proof (induction entries arbitrary: s ds)
  case Nil
  then show ?case by simp
next
  case (Cons entry entries)
  obtain d ds' where d: "entry_delta (nodes s) crush entry = Some d"
    and ds': "those (map (entry_delta (nodes s) crush) entries) = Some ds'"
    and ds: "ds = d # ds'"
    using Cons.prems by (auto split: option.splits)
  obtain s1 line where s1: "resolve_target False crush s entry = Inr s1"
    "trace s1 = trace s @ [Print line]"
    "total_weight_change s1 = total_weight_change s + d"
    "nodes s1 = nodes s" "pg_stats s1 = pg_stats s"
    using resolve_target_loud [OF d] by blast
  obtain s' lines where s': "for_each (resolve_target False crush) entries s1 = Inr s'"
    "trace s' = trace s1 @ map Print lines"
    "total_weight_change s' = total_weight_change s1 + sum_list ds'"
    "nodes s' = nodes s1" "pg_stats s' = pg_stats s1"
    using Cons.IH [of s1 ds'] ds' s1 by auto
  have "trace s' = trace s @ map Print (line # lines)"
    using s1 s' by simp
  moreover have "for_each (resolve_target False crush) (entry # entries) s = Inr s'"
    using s1 s' by simp
  moreover have "total_weight_change s' = total_weight_change s + sum_list ds"
    using s1 s' ds by simp
  moreover have "nodes s' = nodes s" "pg_stats s' = pg_stats s"
    using s1 s' by simp_all
  ultimately show ?case
    by blast
qed

text \<open>
  C4, as amended.  In a run that is not quiet, when every configured entry resolves to a
  node with a weight and the sum of the absolute differences between current and required
  weights is below \<^verbatim>\<open>min_weight_diff\<close>, \<^verbatim>\<open>do_rebalance\<close> returns normally; its events
  are the topology query \<^verbatim>\<open>ceph osd tree\<close>, then prints only, the last of them
  "Nothing to change".  No weight-update command is issued, no health answer is consumed
  and no node is changed.
\<close>

theorem nothing_to_change:
  assumes "those (map (entry_delta (fst osd_tree) (snd osd_tree)) (cfg_osds config)) = Some ds"
    and "sum_list ds < min_weight_diff (read_params False config)"
  shows "\<exists>s' lines. do_rebalance osd_tree answers False config a = Some (Inr s')
           \<and> trace s' = Run_osd_tree # map Print lines @ [Print Nothing_to_change]
           \<and> pg_stats s' = answers \<and> nodes s' = fst osd_tree"
proof -
  let ?s0 = "\<lparr>nodes = fst osd_tree, pg_stats = answers, trace = [Run_osd_tree],
                rebalance_nodes = [], total_weight_change = 0, already_changed = 0,
                any_updates = False\<rparr>"
  obtain s1 lines where s1: "for_each (resolve_target False (snd osd_tree)) (cfg_osds config) ?s0
      = Inr s1"
    "trace s1 = trace ?s0 @ map Print lines"
    "total_weight_change s1 = total_weight_change ?s0 + sum_list ds"
    "nodes s1 = nodes ?s0" "pg_stats s1 = pg_stats ?s0"
    using resolve_all_loud [of ?s0 "snd osd_tree" "cfg_osds config" ds] assms(1) by auto
  then have "do_rebalance osd_tree answers False config a
      = Some (Inr (emit (Print Nothing_to_change) s1))"
    using assms(2) by (simp add: do_rebalance_def Let_def)
  then show ?thesis
    using s1 by (auto simp: emit_def)
qed

theorem nothing_to_change_witness:
  "\<exists>s' lines. do_rebalance (example_nodes, example_crush) [] False
       (example_config 1 0.01 [example_entry ''osd.0'' 0.5, example_entry ''osd.1'' 0.495])
       \<lparr>quiet = False, estimate_only = False, no_estimate = False\<rparr> = Some (Inr s')
     \<and> trace s' = Run_osd_tree # map Print lines @ [Print Nothing_to_change]
     \<and> pg_stats s' = [] \<and> nodes s' = example_nodes"
  using nothing_to_change [of "(example_nodes, example_crush)"
      "example_config 1 0.01 [example_entry ''osd.0'' 0.5, example_entry ''osd.1'' 0.495]"
      "[0, 0.005]" "[]" "\<lparr>quiet = False, estimate_only = False, no_estimate = False\<rparr>"]
  by (simp add: entry_delta_def run_defs example_defs)

text \<open>
  The claim C4 as stated fails: the run always starts with the topology query (the current
  weights come from it); and a quiet run skips the aggregate check, prints nothing and
  goes through the loop, asking the cluster for its health.
\<close>

theorem no_op_still_queries:
  "run_trace (do_rebalance (example_nodes, example_crush) [clean_answer, clean_answer] False
       (example_config 1 0.01 [example_entry ''osd.0'' 0.5])
       \<lparr>quiet = False, estimate_only = False, no_estimate = True\<rparr>)
   = Some [Run_osd_tree, Print (Target_line (example_nodes 2) 0.5), Print Nothing_to_change]
   \<and> run_trace (do_rebalance (example_nodes, example_crush) [clean_answer, clean_answer] True
       (example_config 1 0.01 [example_entry ''osd.0'' 0.5])
       \<lparr>quiet = True, estimate_only = False, no_estimate = True\<rparr>)
   = Some [Run_osd_tree, Run_pg_stat, Run_pg_stat]"
  by (simp add: run_defs example_defs rebalance_loop.simps poll_until_complete.simps)

section \<open>Round-robin service\<close>






end
